theory Spec2Isabelle
  imports Complex_Main "HOL-Library.AList"
begin

section \<open>Conventions of the embedding\<close>

text \<open>
  The TypeScript services are embedded as pure functions over explicit state records.
  \<^item> A JavaScript \<open>Date\<close> that holds a valid time is its number of milliseconds since
    the epoch, an \<open>int\<close>. Local calendar arithmetic (\<open>setMinutes\<close>, \<open>setDate\<close>) is taken
    in a zone with a fixed offset, so ten minutes are 600000 ms and thirty days are
    2592000000 ms.
  \<^item> A JavaScript \<open>Map\<close> is an association list in insertion order whose keys are
    distinct; \<open>Map.set\<close> is \<open>AList.update\<close> (an existing key keeps its place, a new key
    goes to the end), \<open>Map.get\<close> is \<open>map_of\<close>, \<open>Map.delete\<close> is \<open>AList.delete\<close>.
  \<^item> A thrown exception, or a rejected promise, is the \<open>Inl\<close> side of a sum.
  \<^item> Calls that leave the process (file system, browser, SMTP, the MIME library, the
    contact directory, the hash function) are parameters of the functions that make them.
\<close>

type_synonym js_date = int

definition minutes :: "int \<Rightarrow> int" where
  "minutes n = n * 60000"


datatype exn = Error string

section \<open>ProcessedEmailTracker\<close>

record ProcessedEmail =
  messageId :: string
  contentHash :: string
  processedAt :: js_date
  subject :: string
  sender :: string

text \<open>What a path of the file system holds: nothing, text that is not a JSON array of
  entries, or the JSON array of entries.\<close>

datatype file_content = Missing | Corrupt | Ledger "ProcessedEmail list"

record disk =
  ledger_file :: file_content
  temp_file :: file_content

text \<open>Whether the calls to \<open>fs.readFile\<close>, \<open>fs.writeFile\<close> and \<open>fs.rename\<close> succeed.\<close>

record io =
  read_ok :: bool
  write_ok :: bool
  rename_ok :: bool

record tracker =
  processed :: "(string \<times> ProcessedEmail) list"
  store :: disk

definition new_tracker :: "disk \<Rightarrow> tracker" where
  "new_tracker d = \<lparr>processed = [], store = d\<rparr>"

text \<open>\<open>save\<close>: write the values to the temporary path, then rename it over the ledger.
  The result holds the exception, if one was thrown, and the state left behind.\<close>

definition save :: "io \<Rightarrow> tracker \<Rightarrow> exn option \<times> tracker" where
  "save f t =
     (if \<not> write_ok f then (Some (Error ''writeFile''), t)
      else
        let t1 = t\<lparr>store := (store t)\<lparr>temp_file := Ledger (map snd (processed t))\<rparr>\<rparr> in
        if \<not> rename_ok f then (Some (Error ''rename''), t1)
        else (None, t1\<lparr>store := (store t1)\<lparr>ledger_file := temp_file (store t1),
                                               temp_file := Missing\<rparr>\<rparr>))"

definition isProcessed :: "(string \<Rightarrow> string) \<Rightarrow> tracker \<Rightarrow> string \<Rightarrow> string \<Rightarrow> bool" where
  "isProcessed generateHash t mid content =
     (if map_of (processed t) mid \<noteq> None then True
      else list_ex (\<lambda>entry. contentHash entry = generateHash content)
             (map snd (processed t)))"

definition markAsProcessed ::
  "(string \<Rightarrow> string) \<Rightarrow> io \<Rightarrow> js_date \<Rightarrow> tracker \<Rightarrow> string \<Rightarrow> string \<Rightarrow> string \<Rightarrow> string
     \<Rightarrow> exn option \<times> tracker" where
  "markAsProcessed generateHash f now t mid subj frm content =
     (let entry = \<lparr>messageId = mid, contentHash = generateHash content, processedAt = now,
                    subject = subj, sender = frm\<rparr>
      in save f (t\<lparr>processed := AList.update mid entry (processed t)\<rparr>))"









section \<open>Dispatch events\<close>

record DispatchFacility =
  companyName :: string
  facilityName :: string
  address :: string
  accountNumber :: string
  dispatchTarget :: string

text \<open>The type of the three dates is a parameter: the parser builds them with the
  \<open>Date\<close> constructor from text, the scheduler reads them as times.\<close>

record 'd DispatchEvent =
  ev_messageId :: string
  ev_subject :: string
  ev_from :: string
  dispatchType :: string
  eventDate :: 'd
  startTime :: 'd
  endTime :: 'd
  timezone :: string
  facilities :: "DispatchFacility list"
  rawContent :: string

record Contact =
  facility :: string
  company :: string
  firstName :: string
  lastName :: string
  email :: string
  phone :: "string option"
  cell :: "string option"
  dispatchable :: bool

section \<open>Scheduler\<close>

datatype job_status = Pending | Running | Completed | Failed

text \<open>A task of the cron library: the time its expression (minute, hour, day of month,
  month) was built from by \<open>dateToCron\<close>, the time zone it was tagged with, and whether
  \<open>stop()\<close> has been called on it.\<close>

record cron_task =
  cron_time :: js_date
  cron_timezone :: string
  cron_stopped :: bool

record ScheduledJob =
  job_id :: string
  job_facilityName :: string
  job_dispatchEvent :: "js_date DispatchEvent"
  scheduledTime :: js_date
  task :: "cron_task option"
  status :: job_status

datatype sched_event =
    JobScheduled string string js_date
  | JobStarted string string
  | JobCompleted string string
  | JobFailed string string exn
  | NoContactsFound string string
  | EmailFailed string string Contact exn
  | JobCancelled string string

text \<open>The scheduler: the job table, the counter behind the job ids, and the events it
  has emitted, oldest first. Listeners are outside the model: \<open>emit\<close> records the event.\<close>

record scheduler =
  jobs :: "(string \<times> ScheduledJob) list"
  jobCounter :: nat
  emitted :: "sched_event list"

definition new_scheduler :: scheduler where
  "new_scheduler = \<lparr>jobs = [], jobCounter = 0, emitted = []\<rparr>"

text \<open>What the scheduler calls and reads outside itself: the contact directory, the
  screenshot service, the mail sender, and two environment variables. Every call returns
  or throws; a call that never settles is outside the model.\<close>

record sched_env =
  getContactsByFacility :: "string \<Rightarrow> exn + Contact list"
  findBestMatch :: "string \<Rightarrow> exn + (string \<times> real) option"
  ss_initialize :: "string \<Rightarrow> exn option"
  ss_captureUsage :: "string \<Rightarrow> string option \<Rightarrow> string \<Rightarrow> exn + string option"
  sendDispatchNotification ::
    "Contact \<Rightarrow> js_date DispatchEvent \<Rightarrow> string \<Rightarrow> string option \<Rightarrow> exn option"
  env_TEST_EMAIL :: "string option"
  env_TZ :: "string option"

definition emit :: "sched_event \<Rightarrow> scheduler \<Rightarrow> scheduler" where
  "emit e s = s\<lparr>emitted := emitted s @ [e]\<rparr>"

subsection \<open>Job ids\<close>

definition digit_char :: "nat \<Rightarrow> char" where
  "digit_char d = ''0123456789'' ! d"

fun show_nat :: "nat \<Rightarrow> string" where
  "show_nat n = (if n < 10 then [digit_char n]
                 else show_nat (n div 10) @ [digit_char (n mod 10)])"

declare show_nat.simps [simp del]

definition is_alnum :: "char \<Rightarrow> bool" where
  "is_alnum c =
     (let n = (of_char c :: nat)
      in (48 \<le> n \<and> n \<le> 57) \<or> (65 \<le> n \<and> n \<le> 90) \<or> (97 \<le> n \<and> n \<le> 122))"

text \<open>\<open>name.replace(/[^a-z0-9]/gi, '-')\<close>\<close>

definition sanitize :: "string \<Rightarrow> string" where
  "sanitize name = map (\<lambda>c. if is_alnum c then c else CHR ''-'') name"

definition make_job_id :: "string \<Rightarrow> nat \<Rightarrow> string \<Rightarrow> string" where
  "make_job_id kind counter name = kind @ ''-'' @ show_nat counter @ ''-'' @ sanitize name"

subsection \<open>Running one facility\<close>

definition set_status :: "string \<Rightarrow> job_status \<Rightarrow> scheduler \<Rightarrow> scheduler" where
  "set_status jobId st s =
     (case map_of (jobs s) jobId of
        None \<Rightarrow> s
      | Some job \<Rightarrow> s\<lparr>jobs := AList.update jobId (job\<lparr>status := st\<rparr>) (jobs s)\<rparr>)"

text \<open>The lookup of the contacts, with the fuzzy match as a fallback. An exception of the
  directory goes to the outer \<open>catch\<close> of \<open>processFacility\<close>.\<close>

definition resolve_contacts :: "sched_env \<Rightarrow> string \<Rightarrow> exn + Contact list" where
  "resolve_contacts env name =
     (case getContactsByFacility env name of
        Inl e \<Rightarrow> Inl e
      | Inr contacts \<Rightarrow>
          if length contacts = 0 then
            (case findBestMatch env name of
               Inl e \<Rightarrow> Inl e
             | Inr None \<Rightarrow> Inr contacts
             | Inr (Some m) \<Rightarrow>
                 if snd m > 0.8 then getContactsByFacility env (fst m) else Inr contacts)
          else Inr contacts)"

text \<open>The inner \<open>try\<close>: every failure of the screenshot service is caught and leaves
  \<open>screenshotPath\<close> undefined, as a \<open>null\<close> or empty path does.\<close>

definition capture_screenshot ::
  "sched_env \<Rightarrow> string \<Rightarrow> string \<Rightarrow> Contact list \<Rightarrow> js_date DispatchEvent \<Rightarrow> string option" where
  "capture_screenshot env jobId name contacts ev =
     (case ss_initialize env jobId of
        Some e \<Rightarrow> None
      | None \<Rightarrow>
          let firstContact =
                (if length contacts > 0
                 then Some (firstName (hd contacts) @ '' '' @ lastName (hd contacts))
                 else None)
          in case ss_captureUsage env name firstContact (dispatchType ev) of
               Inl e \<Rightarrow> None
             | Inr None \<Rightarrow> None
             | Inr (Some capturedPath) \<Rightarrow> if capturedPath = [] then None else Some capturedPath)"

definition send_one ::
  "sched_env \<Rightarrow> string \<Rightarrow> string \<Rightarrow> js_date DispatchEvent \<Rightarrow> string option
     \<Rightarrow> scheduler \<Rightarrow> Contact \<Rightarrow> scheduler" where
  "send_one env jobId name ev screenshotPath s contact =
     (let targetContact =
            (case env_TEST_EMAIL env of
               None \<Rightarrow> contact
             | Some testEmail \<Rightarrow> if testEmail = [] then contact
                                else contact\<lparr>email := testEmail\<rparr>)
      in case sendDispatchNotification env targetContact ev name screenshotPath of
           None \<Rightarrow> s
         | Some error \<Rightarrow> emit (EmailFailed jobId name targetContact error) s)"

text \<open>\<open>processFacility\<close> in two parts: what runs before its \<open>try\<close> (the job goes to
  \<open>running\<close>, \<open>jobStarted\<close> is emitted), and the \<open>try\<close>/\<open>catch\<close>/\<open>finally\<close>. Closing
  the screenshot service in \<open>finally\<close> changes nothing of the scheduler, and its failure is
  caught.\<close>

definition processFacility_start :: "string \<Rightarrow> string \<Rightarrow> scheduler \<Rightarrow> scheduler" where
  "processFacility_start jobId name s = emit (JobStarted jobId name) (set_status jobId Running s)"

definition processFacility_rest ::
  "sched_env \<Rightarrow> string \<Rightarrow> string \<Rightarrow> js_date DispatchEvent \<Rightarrow> scheduler \<Rightarrow> scheduler" where
  "processFacility_rest env jobId name ev s =
     (case resolve_contacts env name of
        Inl error \<Rightarrow> emit (JobFailed jobId name error) (set_status jobId Failed s)
      | Inr contacts \<Rightarrow>
          let screenshotPath = capture_screenshot env jobId name contacts ev;
              s1 = (if length contacts = 0 then emit (NoContactsFound jobId name) s
                    else foldl (send_one env jobId name ev screenshotPath) s contacts)
          in emit (JobCompleted jobId name) (set_status jobId Completed s1))"

definition processFacility ::
  "sched_env \<Rightarrow> string \<Rightarrow> string \<Rightarrow> js_date DispatchEvent \<Rightarrow> scheduler \<Rightarrow> scheduler" where
  "processFacility env jobId name ev s =
     processFacility_rest env jobId name ev (processFacility_start jobId name s)"

subsection \<open>Scheduling\<close>

text \<open>
  \<open>processAllFacilities\<close> maps an asynchronous function over the facilities, so the event
  loop first runs every facility up to its first suspension, in list order, and then the
  remainders. The model gives each facility its id and runs its first part in list order
  (\<open>immediate_start\<close>), then runs the remainders in list order (\<open>immediate_rest\<close>).
  \<open>Promise.allSettled\<close> absorbs every rejection, so nothing is thrown.
\<close>

fun immediate_ids :: "nat \<Rightarrow> DispatchFacility list \<Rightarrow> (string \<times> string) list" where
  "immediate_ids counter [] = []"
| "immediate_ids counter (fac # fs) =
     (make_job_id ''immediate'' (Suc counter) (facilityName fac), facilityName fac)
       # immediate_ids (Suc counter) fs"

definition immediate_start :: "scheduler \<Rightarrow> DispatchFacility \<Rightarrow> scheduler" where
  "immediate_start s fac =
     (let c = Suc (jobCounter s);
          jobId = make_job_id ''immediate'' c (facilityName fac)
      in processFacility_start jobId (facilityName fac) (s\<lparr>jobCounter := c\<rparr>))"

definition immediate_rest ::
  "sched_env \<Rightarrow> js_date DispatchEvent \<Rightarrow> scheduler \<Rightarrow> string \<times> string \<Rightarrow> scheduler" where
  "immediate_rest env ev s p = processFacility_rest env (fst p) (snd p) ev s"

definition processAllFacilities_start :: "js_date DispatchEvent \<Rightarrow> scheduler \<Rightarrow> scheduler" where
  "processAllFacilities_start ev s = foldl immediate_start s (facilities ev)"

definition processAllFacilities ::
  "sched_env \<Rightarrow> js_date DispatchEvent \<Rightarrow> scheduler \<Rightarrow> scheduler" where
  "processAllFacilities env ev s =
     foldl (immediate_rest env ev) (processAllFacilities_start ev s)
       (immediate_ids (jobCounter s) (facilities ev))"

text \<open>One step of the \<open>forEach\<close> over the facilities: the next id, a cron task for the
  notification time (\<open>cron.schedule\<close> is taken to hand back a task, started, for every
  expression and time zone it is given), the \<open>pending\<close> job stored under the id, and the
  \<open>jobScheduled\<close> event.\<close>

definition js_or :: "string \<Rightarrow> string \<Rightarrow> string" where
  "js_or a b = (if a = [] then b else a)"

definition schedule_facility ::
  "sched_env \<Rightarrow> js_date DispatchEvent \<Rightarrow> js_date \<Rightarrow> scheduler \<Rightarrow> DispatchFacility \<Rightarrow> scheduler" where
  "schedule_facility env ev notificationTime s fac =
     (let c = Suc (jobCounter s);
          jobId = make_job_id ''job'' c (facilityName fac);
          tsk = \<lparr>cron_time = notificationTime,
                 cron_timezone = js_or (timezone ev)
                                   (js_or (case env_TZ env of None \<Rightarrow> [] | Some z \<Rightarrow> z)
                                          ''America/New_York''),
                 cron_stopped = False\<rparr>;
          job = \<lparr>job_id = jobId, job_facilityName = facilityName fac, job_dispatchEvent = ev,
                 scheduledTime = notificationTime, task = Some tsk, status = Pending\<rparr>
      in emit (JobScheduled jobId (facilityName fac) notificationTime)
           (s\<lparr>jobCounter := c, jobs := AList.update jobId job (jobs s)\<rparr>))"

text \<open>\<open>scheduleDispatchNotifications\<close>, up to its return: when the notification time has
  passed, the caller gets control back after the first parts of the immediate runs.\<close>

definition scheduleDispatchNotifications ::
  "sched_env \<Rightarrow> js_date \<Rightarrow> js_date DispatchEvent \<Rightarrow> scheduler \<Rightarrow> scheduler" where
  "scheduleDispatchNotifications env now ev s =
     (let notificationTime = startTime ev + minutes 10
      in if notificationTime \<le> now then processAllFacilities_start ev s
         else foldl (schedule_facility env ev notificationTime) s (facilities ev))"

text \<open>The same call followed by the remainders of the immediate runs it started.\<close>

definition scheduleDispatchNotifications_settled ::
  "sched_env \<Rightarrow> js_date \<Rightarrow> js_date DispatchEvent \<Rightarrow> scheduler \<Rightarrow> scheduler" where
  "scheduleDispatchNotifications_settled env now ev s =
     (let notificationTime = startTime ev + minutes 10
      in if notificationTime \<le> now then processAllFacilities env ev s
         else foldl (schedule_facility env ev notificationTime) s (facilities ev))"

text \<open>The cron library runs the callback of a task when its time comes, unless the task
  has been stopped.\<close>

definition cron_fire :: "sched_env \<Rightarrow> string \<Rightarrow> scheduler \<Rightarrow> scheduler" where
  "cron_fire env jobId s =
     (case map_of (jobs s) jobId of
        None \<Rightarrow> s
      | Some job \<Rightarrow>
          (case task job of
             None \<Rightarrow> s
           | Some tsk \<Rightarrow>
               if cron_stopped tsk then s
               else processFacility env jobId (job_facilityName job) (job_dispatchEvent job) s))"

definition getActiveJobs :: "scheduler \<Rightarrow> ScheduledJob list" where
  "getActiveJobs s = filter (\<lambda>job. status job = Pending) (map snd (jobs s))"

definition getJobStatus :: "scheduler \<Rightarrow> string \<Rightarrow> ScheduledJob option" where
  "getJobStatus s jobId = map_of (jobs s) jobId"

definition cancelJob :: "string \<Rightarrow> scheduler \<Rightarrow> bool \<times> scheduler" where
  "cancelJob jobId s =
     (case map_of (jobs s) jobId of
        None \<Rightarrow> (False, s)
      | Some job \<Rightarrow>
          (case task job of
             None \<Rightarrow> (False, s)
           | Some tsk \<Rightarrow>
               if status job = Pending
               then (True,
                     emit (JobCancelled jobId (job_facilityName job))
                       (s\<lparr>jobs := AList.update jobId
                                    (job\<lparr>task := Some (tsk\<lparr>cron_stopped := True\<rparr>),
                                         status := Failed\<rparr>) (jobs s)\<rparr>))
               else (False, s)))"

definition cancelAllJobs :: "scheduler \<Rightarrow> scheduler" where
  "cancelAllJobs s = foldl (\<lambda>acc jobId. snd (cancelJob jobId acc)) s (map fst (jobs s))"



text \<open>Reading a decimal numeral back, to show that \<open>show_nat\<close> is injective.\<close>

definition read_nat :: "string \<Rightarrow> nat" where
  "read_nat s = foldl (\<lambda>a c. 10 * a + (of_char c - 48)) 0 s"

text \<open>
  What holds of the job table in every state the scheduler can reach: each key is a
  \<open>job-\<close> id made from a counter value the counter has passed, and each job carries its
  key and a cron task. (No job is ever stored under an \<open>immediate-\<close> id.)
\<close>

definition sched_inv :: "scheduler \<Rightarrow> bool" where
  "sched_inv s =
     (\<forall>p \<in> set (jobs s).
        (\<exists>c n. c \<le> jobCounter s \<and> fst p = make_job_id ''job'' c n) \<and>
        task (snd p) \<noteq> None \<and> job_id (snd p) = fst p)"

text \<open>Sample inputs.\<close>

definition facility_a :: DispatchFacility where
  "facility_a = \<lparr>companyName = ''Company A'', facilityName = ''Facility A'',
                 address = ''123 A St'', accountNumber = ''A-123'', dispatchTarget = ''100 kW''\<rparr>"

definition facility_b :: DispatchFacility where
  "facility_b = \<lparr>companyName = ''Company B'', facilityName = ''Facility B'',
                 address = ''456 B Ave'', accountNumber = ''B-456'', dispatchTarget = ''200 kW''\<rparr>"

definition sample_event :: "js_date \<Rightarrow> js_date DispatchEvent" where
  "sample_event start =
     \<lparr>ev_messageId = ''test-123'', ev_subject = ''Dispatch'', ev_from = ''test@cpower.com'',
      dispatchType = ''Test'', eventDate = start, startTime = start,
      endTime = start + minutes 60, timezone = ''America/New_York'',
      facilities = [facility_a, facility_b], rawContent = ''Test event''\<rparr>"

definition quiet_env :: sched_env where
  "quiet_env =
     \<lparr>getContactsByFacility = (\<lambda>name. Inr []),
      findBestMatch = (\<lambda>name. Inr None),
      ss_initialize = (\<lambda>jobId. None),
      ss_captureUsage = (\<lambda>name contact dtype. Inr None),
      sendDispatchNotification = (\<lambda>contact ev name path. None),
      env_TEST_EMAIL = None,
      env_TZ = None\<rparr>"

definition contact_b :: Contact where
  "contact_b = \<lparr>facility = ''Facility B'', company = ''Company B'', firstName = ''Bea'',
                lastName = ''Jones'', email = ''bea@example.com'', phone = None, cell = None,
                dispatchable = True\<rparr>"

text \<open>An environment in which the directory throws for Facility A and the mail to
  Facility B's contact is sent.\<close>

definition failing_env :: sched_env where
  "failing_env =
     \<lparr>getContactsByFacility =
        (\<lambda>name. if name = ''Facility A'' then Inl (Error ''directory'') else Inr [contact_b]),
      findBestMatch = (\<lambda>name. Inr None),
      ss_initialize = (\<lambda>jobId. None),
      ss_captureUsage = (\<lambda>name contact dtype. Inr (Some ''shot.png'')),
      sendDispatchNotification = (\<lambda>contact ev name path. None),
      env_TEST_EMAIL = None,
      env_TZ = None\<rparr>"

section \<open>Strings and regular expressions\<close>

text \<open>
  Strings are lists of 8-bit characters; the character classes and the case mapping below
  are the ASCII part of the JavaScript ones. A regular expression of the source is a value of \<open>re\<close>, and matching
  follows the backtracking order of JavaScript: \<open>ms r (caps, s)\<close> lists, in the order the
  engine would try them, the ways \<open>r\<close> can match a prefix of \<open>s\<close>, each as the captures so
  far and the text left over. A group appends its text to the captures when it closes.
\<close>

definition is_digit :: "char \<Rightarrow> bool" where
  "is_digit c = (let n = (of_char c :: nat) in 48 \<le> n \<and> n \<le> 57)"

definition is_space :: "char \<Rightarrow> bool" where
  "is_space c = (let n = (of_char c :: nat) in n = 32 \<or> (9 \<le> n \<and> n \<le> 13))"

definition is_upper :: "char \<Rightarrow> bool" where
  "is_upper c = (let n = (of_char c :: nat) in 65 \<le> n \<and> n \<le> 90)"

definition is_lower :: "char \<Rightarrow> bool" where
  "is_lower c = (let n = (of_char c :: nat) in 97 \<le> n \<and> n \<le> 122)"

definition to_lower :: "char \<Rightarrow> char" where
  "to_lower c =
     (case map_of (zip ''ABCDEFGHIJKLMNOPQRSTUVWXYZ'' ''abcdefghijklmnopqrstuvwxyz'') c of
        None \<Rightarrow> c
      | Some l \<Rightarrow> l)"

definition toLowerCase :: "string \<Rightarrow> string" where
  "toLowerCase s = map to_lower s"

fun starts_with :: "string \<Rightarrow> string \<Rightarrow> bool" where
  "starts_with s [] = True"
| "starts_with [] (p # ps) = False"
| "starts_with (c # cs) (p # ps) = (c = p \<and> starts_with cs ps)"

text \<open>\<open>s.includes(sub)\<close>\<close>

fun str_includes :: "string \<Rightarrow> string \<Rightarrow> bool" where
  "str_includes [] sub = (sub = [])"
| "str_includes (c # cs) sub = (starts_with (c # cs) sub \<or> str_includes cs sub)"

text \<open>\<open>s.trim()\<close>\<close>

definition trim :: "string \<Rightarrow> string" where
  "trim s = rev (dropWhile is_space (rev (dropWhile is_space s)))"

datatype cclass =
    CChar char
  | CCharI char
  | CDigit
  | CSpace
  | CNot char
  | CAny
  | CDot
  | COneOf "char list"
  | CAlpha

fun cmatch :: "cclass \<Rightarrow> char \<Rightarrow> bool" where
  "cmatch (CChar c) x = (x = c)"
| "cmatch (CCharI c) x = (to_lower x = to_lower c)"
| "cmatch CDigit x = is_digit x"
| "cmatch CSpace x = is_space x"
| "cmatch (CNot c) x = (x \<noteq> c)"
| "cmatch CAny x = True"
| "cmatch CDot x = (x \<noteq> CHR 0x0A \<and> x \<noteq> CHR 0x0D)"
| "cmatch (COneOf cs) x = (x \<in> set cs)"
| "cmatch CAlpha x = (is_upper x \<or> is_lower x)"

datatype re =
    Eps
  | Sym cclass
  | Seq re re
  | Alt re re
  | Star re
  | LazyStar re
  | Grp re

type_synonym mstate = "string list \<times> string"

fun ms :: "re \<Rightarrow> mstate \<Rightarrow> mstate list" where
  "ms Eps st = [st]"
| "ms (Sym c) st =
     (case snd st of
        [] \<Rightarrow> []
      | x # xs \<Rightarrow> if cmatch c x then [(fst st, xs)] else [])"
| "ms (Seq a b) st = concat (map (ms b) (ms a st))"
| "ms (Alt a b) st = ms a st @ ms b st"
| "ms (Star a) st =
     concat (map (\<lambda>st'. if length (snd st') < length (snd st) then ms (Star a) st' else [])
               (ms a st)) @ [st]"
| "ms (LazyStar a) st =
     st # concat (map (\<lambda>st'. if length (snd st') < length (snd st) then ms (LazyStar a) st' else [])
               (ms a st))"
| "ms (Grp a) st =
     map (\<lambda>st'. (fst st' @ [take (length (snd st) - length (snd st')) (snd st)], snd st'))
       (ms a st)"

definition Opt :: "re \<Rightarrow> re" where
  "Opt r = Alt r Eps"

definition Plus :: "re \<Rightarrow> re" where
  "Plus r = Seq r (Star r)"

fun lits :: "string \<Rightarrow> re" where
  "lits [] = Eps"
| "lits (c # cs) = Seq (Sym (CChar c)) (lits cs)"

fun litsI :: "string \<Rightarrow> re" where
  "litsI [] = Eps"
| "litsI (c # cs) = Seq (Sym (CCharI c)) (litsI cs)"

fun seqs :: "re list \<Rightarrow> re" where
  "seqs [] = Eps"
| "seqs [r] = r"
| "seqs (r # rs) = Seq r (seqs rs)"

text \<open>\<open>s.match(r)\<close> without the \<open>g\<close> flag: the leftmost match, as the matched text and
  the captured groups; \<open>None\<close> is \<open>null\<close>.\<close>

fun re_exec :: "re \<Rightarrow> string \<Rightarrow> (string \<times> string list) option" where
  "re_exec r [] =
     (case ms r ([], []) of [] \<Rightarrow> None | st # _ \<Rightarrow> Some ([], fst st))"
| "re_exec r (c # cs) =
     (case ms r ([], c # cs) of
        [] \<Rightarrow> re_exec r cs
      | st # _ \<Rightarrow> Some (take (length (c # cs) - length (snd st)) (c # cs), fst st))"

definition re_test :: "re \<Rightarrow> string \<Rightarrow> bool" where
  "re_test r s = (re_exec r s \<noteq> None)"

text \<open>\<open>s.match(r)\<close> with the \<open>g\<close> flag: the texts of all matches, left to right, each
  search starting where the match before ended (one further after an empty match).
  The empty list is \<open>null\<close>.\<close>

fun re_match_all :: "re \<Rightarrow> string \<Rightarrow> string list" where
  "re_match_all r [] = (case ms r ([], []) of [] \<Rightarrow> [] | st # _ \<Rightarrow> [[]])"
| "re_match_all r (c # cs) =
     (case ms r ([], c # cs) of
        [] \<Rightarrow> re_match_all r cs
      | st # _ \<Rightarrow>
          if length (snd st) < length (c # cs)
          then take (length (c # cs) - length (snd st)) (c # cs) # re_match_all r (snd st)
          else [] # re_match_all r cs)"

text \<open>\<open>s.replace(r, rep)\<close> with the \<open>g\<close> flag and a replacement without \<open>$\<close>.\<close>

fun re_replace_all :: "re \<Rightarrow> string \<Rightarrow> string \<Rightarrow> string" where
  "re_replace_all r rep [] = (case ms r ([], []) of [] \<Rightarrow> [] | st # _ \<Rightarrow> rep)"
| "re_replace_all r rep (c # cs) =
     (case ms r ([], c # cs) of
        [] \<Rightarrow> c # re_replace_all r rep cs
      | st # _ \<Rightarrow>
          if length (snd st) < length (c # cs)
          then rep @ re_replace_all r rep (snd st)
          else rep @ c # re_replace_all r rep cs)"

section \<open>ScreenshotService\<close>

subsection \<open>The data-readiness check\<close>

text \<open>
  What \<open>hasUsageData\<close> can see of the page: the text content of its elements in document
  order (a locator \<open>text=/re/\<close> selects the elements whose text matches \<open>re\<close>), the CSS
  selectors that match an element, and whether the page has been closed (every call on a
  closed page throws).
\<close>

record page_content =
  element_texts :: "string list"
  selectors_present :: "string list"
  page_closed :: bool

definition digit_re :: re where
  "digit_re = Sym CDigit"

text \<open>\<open>\d{1,3}(,\d{3})*(\.\d+)?\<close>\<close>

definition number_re :: re where
  "number_re =
     seqs [digit_re, Opt (Seq digit_re (Opt digit_re)),
           Star (seqs [Sym (CChar CHR '',''), digit_re, digit_re, digit_re]),
           Opt (Seq (Sym (CChar CHR ''.'')) (Plus digit_re))]"

text \<open>The locator is built from \<open>pattern.source\<close>, which drops the \<open>i\<close> flag of the three
  patterns, so they match with case.\<close>

definition usagePatterns :: "re list" where
  "usagePatterns =
     [seqs [number_re, Star (Sym CSpace), lits ''kW''],
      seqs [number_re, Star (Sym CSpace), lits ''MW''],
      seqs [lits ''Load Estimate'', Star (Sym CDot), lits ''kW'']]"

definition chartSelectors :: "string list" where
  "chartSelectors = [''canvas'', ''svg.highcharts-root'', ''.chart-container:has(canvas)'']"

definition usage_pattern_found :: "page_content \<Rightarrow> re \<Rightarrow> bool" where
  "usage_pattern_found p pattern =
     (case filter (re_test pattern) (element_texts p) of
        [] \<Rightarrow> False
      | firstMatch # _ \<Rightarrow>
          firstMatch \<noteq> [] \<and> \<not> str_includes firstMatch ''0.00'' \<and>
          \<not> str_includes firstMatch ''0 kW'' \<and> firstMatch \<noteq> ''kWh'')"

definition hasUsageData :: "page_content option \<Rightarrow> bool" where
  "hasUsageData page =
     (case page of
        None \<Rightarrow> False
      | Some p \<Rightarrow>
          if page_closed p then False
          else if list_ex (usage_pattern_found p) usagePatterns then True
          else list_ex (\<lambda>selector. selector \<in> set (selectors_present p)) chartSelectors)"

text \<open>The pattern of a reading with its clock time, as \<open>captureUsage\<close> and \<open>getUsageValue\<close>
  write it: \<open>\d{1,3}(,\d{3})*(\.\d+)?\s*kW.*@.*[AP]M\<close>.\<close>

definition usage_reading_re :: re where
  "usage_reading_re =
     seqs [number_re, Star (Sym CSpace), lits ''kW'', Star (Sym CDot), Sym (CChar CHR ''@''),
           Star (Sym CDot), Sym (COneOf ''AP''), Sym (CChar CHR ''M'')]"

definition text_page :: "string \<Rightarrow> page_content" where
  "text_page reading = \<lparr>element_texts = [reading], selectors_present = [], page_closed = False\<rparr>"

subsection \<open>captureUsage\<close>










section \<open>CPowerEmailParser\<close>

text \<open>What the MIME library hands back for a raw message; an absent field is \<open>None\<close>
  (\<open>html\<close> is \<open>false\<close> when the message has no HTML part).\<close>

record parsed_mail =
  pm_messageId :: "string option"
  pm_subject :: "string option"
  pm_from :: "string option"
  pm_html :: "string option"
  pm_textAsHtml :: "string option"

text \<open>\<open>a || b\<close> on an optional string: an absent or empty \<open>a\<close> gives \<open>b\<close>.\<close>

definition opt_or :: "string option \<Rightarrow> string \<Rightarrow> string" where
  "opt_or a b = (case a of None \<Rightarrow> b | Some x \<Rightarrow> if x = [] then b else x)"

definition mail_messageId :: "parsed_mail \<Rightarrow> string" where
  "mail_messageId parsed = opt_or (pm_messageId parsed) []"

definition mail_subject :: "parsed_mail \<Rightarrow> string" where
  "mail_subject parsed = opt_or (pm_subject parsed) []"

definition mail_from :: "parsed_mail \<Rightarrow> string" where
  "mail_from parsed = opt_or (pm_from parsed) []"

definition mail_html :: "parsed_mail \<Rightarrow> string" where
  "mail_html parsed = opt_or (pm_html parsed) (opt_or (pm_textAsHtml parsed) [])"

definition isDispatchEmail :: "string \<Rightarrow> string \<Rightarrow> bool" where
  "isDispatchEmail subj frm =
     (let subjectLower = toLowerCase subj; fromLower = toLowerCase frm
      in str_includes fromLower ''cpowerdispatch'' \<and>
         (str_includes subjectLower ''dispatched event'' \<or>
          str_includes subjectLower ''dispatch event'' \<or>
          str_includes subjectLower ''curtailment''))"

definition decodeHtmlEntities :: "string \<Rightarrow> string" where
  "decodeHtmlEntities html =
     re_replace_all (lits ''&#39;'') [CHR 0x27]
       (re_replace_all (lits ''&quot;'') [CHR 0x22]
         (re_replace_all (lits ''&gt;'') ''>''
           (re_replace_all (lits ''&lt;'') ''<''
             (re_replace_all (lits ''&amp;'') ''&''
               (re_replace_all
                  (seqs [Sym (CChar CHR ''=''), Opt (Sym (CChar CHR 0x0D)), Sym (CChar CHR 0x0A)]) []
                  (re_replace_all (lits ''=3D'') ''='' html))))))"

text \<open>\<open>label\s*open([^<]+)close\<close> with the \<open>i\<close> flag.\<close>

definition labelled_re :: "string \<Rightarrow> string \<Rightarrow> string \<Rightarrow> re" where
  "labelled_re label opening closing =
     Seq (litsI label)
       (seqs [Star (Sym CSpace), litsI opening, Grp (Plus (Sym (CNot CHR ''<''))), litsI closing])"

definition start_re :: re where
  "start_re = labelled_re ''Event will Start at:'' ''<strong>'' ''</strong>''"

definition end_re :: re where
  "end_re = labelled_re ''Event will End at:'' ''<strong>'' ''</strong>''"

definition extractDispatchType :: "string \<Rightarrow> string" where
  "extractDispatchType html =
     (case re_exec (labelled_re ''Dispatch Alert For:'' ''<strong>'' ''</strong>'') html of
        Some (whole, g # gs) \<Rightarrow> trim g
      | _ \<Rightarrow>
          (case re_exec (labelled_re ''has informed CPower of a'' ''<em><strong>''
                           ''</strong></em>'') html of
             Some (whole, g # gs) \<Rightarrow> trim g
           | _ \<Rightarrow> ''Unknown Dispatch''))"

text \<open>\<open>(\d{1,2}:\d{2}\s*[AP]M)\s*\(([A-Z]{3,4})\)\s*On\s*(\d{2}\/\d{2}\/\d{4})\<close> with
  the \<open>i\<close> flag.\<close>

definition time_re :: re where
  "time_re =
     seqs [Grp (seqs [digit_re, Opt digit_re, Sym (CChar CHR '':''), digit_re, digit_re,
                      Star (Sym CSpace), Sym (COneOf ''APap''), Sym (CCharI CHR ''M'')]),
           Star (Sym CSpace), Sym (CChar CHR ''(''),
           Grp (seqs [Sym CAlpha, Sym CAlpha, Sym CAlpha, Opt (Sym CAlpha)]),
           Sym (CChar CHR '')''), Star (Sym CSpace), litsI ''On'', Star (Sym CSpace),
           Grp (seqs [digit_re, digit_re, Sym (CChar CHR ''/''), digit_re, digit_re,
                      Sym (CChar CHR ''/''), digit_re, digit_re, digit_re, digit_re])]"

text \<open>\<open>s.split('/')\<close>\<close>

fun split_slash :: "string \<Rightarrow> string list" where
  "split_slash [] = [[]]"
| "split_slash (c # cs) =
     (if c = CHR ''/'' then [] # split_slash cs
      else case split_slash cs of
             [] \<Rightarrow> [[c]]
           | part # parts \<Rightarrow> (c # part) # parts)"

text \<open>An element of an array inside a template string; a missing one prints as
  \<open>undefined\<close>.\<close>

definition element_text :: "string list \<Rightarrow> nat \<Rightarrow> string" where
  "element_text xs i = (if i < length xs then xs ! i else ''undefined'')"

text \<open>The \<open>Date\<close> constructor applied to a text is a parameter, \<open>newDate\<close>: it never throws,
  and gives an invalid date for a text it cannot read.\<close>

definition parseEventTime :: "(string \<Rightarrow> 'd) \<Rightarrow> string \<Rightarrow> ('d \<times> string) option" where
  "parseEventTime newDate timeStr =
     (case re_exec time_re timeStr of
        None \<Rightarrow> None
      | Some (whole, groups) \<Rightarrow>
          let time = element_text groups 0;
              tz = element_text groups 1;
              date = element_text groups 2;
              parts = split_slash date;
              dateTimeStr = element_text parts 0 @ ''/'' @ element_text parts 1 @ ''/'' @
                            element_text parts 2 @ '' '' @ time
          in Some (newDate dateTimeStr, tz))"

record 'd event_times =
  et_eventDate :: 'd
  et_startTime :: 'd
  et_endTime :: 'd
  et_timezone :: string

definition extractEventTimes :: "(string \<Rightarrow> 'd) \<Rightarrow> string \<Rightarrow> 'd event_times option" where
  "extractEventTimes newDate html =
     (case re_exec start_re html of
        None \<Rightarrow> None
      | Some (swhole, sgroups) \<Rightarrow>
          (case re_exec end_re html of
             None \<Rightarrow> None
           | Some (ewhole, egroups) \<Rightarrow>
               (case (sgroups, egroups) of
                  (sg # _, eg # _) \<Rightarrow>
                    (case parseEventTime newDate (trim sg) of
                       None \<Rightarrow> None
                     | Some startParsed \<Rightarrow>
                         (case parseEventTime newDate (trim eg) of
                            None \<Rightarrow> None
                          | Some endParsed \<Rightarrow>
                              Some \<lparr>et_eventDate = fst startParsed,
                                    et_startTime = fst startParsed,
                                    et_endTime = fst endParsed,
                                    et_timezone = snd startParsed\<rparr>))
                | _ \<Rightarrow> None)))"

text \<open>\<open><tag[^>]*>[\s\S]*?<\/tag>\<close> and \<open><td[^>]*>([^<]*)<\/td>\<close>, with the \<open>i\<close> flag.\<close>

definition element_re :: "string \<Rightarrow> re" where
  "element_re tag =
     seqs [litsI (''<'' @ tag), Star (Sym (CNot CHR ''>'')), Sym (CChar CHR ''>''),
           LazyStar (Sym CAny), litsI (''</'' @ tag @ ''>'')]"

definition cell_re :: re where
  "cell_re =
     seqs [litsI ''<td'', Star (Sym (CNot CHR ''>'')), Sym (CChar CHR ''>''),
           Grp (Star (Sym (CNot CHR ''<''))), litsI ''</td>'']"

definition parseTableRow :: "string \<Rightarrow> DispatchFacility option" where
  "parseTableRow rowHtml =
     (let cellMatches = re_match_all cell_re rowHtml
      in if cellMatches = [] \<or> length cellMatches < 5 then None
         else
           let cells = map (\<lambda>cell. case re_exec cell_re cell of
                                      Some (whole, g # gs) \<Rightarrow> trim g
                                    | _ \<Rightarrow> []) cellMatches
           in Some \<lparr>companyName = cells ! 0, facilityName = cells ! 1, address = cells ! 2,
                    accountNumber = cells ! 3, dispatchTarget = cells ! 4\<rparr>)"

definition extractFacilities :: "string \<Rightarrow> DispatchFacility list" where
  "extractFacilities html =
     (let tableMatch = re_match_all (element_re ''table'') html
      in case find (\<lambda>table. str_includes table ''Company Name'' \<and>
                            str_includes table ''Facility Name'') tableMatch of
           None \<Rightarrow> []
         | Some facilitiesTable \<Rightarrow>
             List.map_filter parseTableRow (drop 1 (re_match_all (element_re ''tr'') facilitiesTable)))"

record 'd dispatch_details =
  dd_dispatchType :: string
  dd_times :: "'d event_times"
  dd_facilities :: "DispatchFacility list"

definition extractDispatchDetails :: "(string \<Rightarrow> 'd) \<Rightarrow> string \<Rightarrow> 'd dispatch_details option" where
  "extractDispatchDetails newDate html =
     (let decodedHtml = decodeHtmlEntities html;
          dtype = extractDispatchType decodedHtml
      in case extractEventTimes newDate decodedHtml of
           None \<Rightarrow> None
         | Some eventTimes \<Rightarrow>
             Some \<lparr>dd_dispatchType = dtype, dd_times = eventTimes,
                   dd_facilities = extractFacilities decodedHtml\<rparr>)"

text \<open>The \<open>try\<close> block of \<open>parseEmailContent\<close>: the MIME library may throw.\<close>

definition parse_try ::
  "(string \<Rightarrow> exn + parsed_mail) \<Rightarrow> (string \<Rightarrow> 'd) \<Rightarrow> string \<Rightarrow> exn + 'd DispatchEvent option" where
  "parse_try simpleParser newDate rawEmail =
     (case simpleParser rawEmail of
        Inl error \<Rightarrow> Inl error
      | Inr parsed \<Rightarrow>
          if \<not> isDispatchEmail (mail_subject parsed) (mail_from parsed) then Inr None
          else
            (case extractDispatchDetails newDate (mail_html parsed) of
               None \<Rightarrow> Inr None
             | Some d \<Rightarrow>
                 Inr (Some \<lparr>ev_messageId = mail_messageId parsed,
                            ev_subject = mail_subject parsed,
                            ev_from = mail_from parsed,
                            dispatchType = dd_dispatchType d,
                            eventDate = et_eventDate (dd_times d),
                            startTime = et_startTime (dd_times d),
                            endTime = et_endTime (dd_times d),
                            timezone = et_timezone (dd_times d),
                            facilities = dd_facilities d,
                            rawContent = rawEmail\<rparr>)))"

text \<open>\<open>parseEmailContent\<close>: the outcome of the promise it returns, \<open>Inl\<close> for a rejection.
  Its \<open>catch\<close> turns every exception of the \<open>try\<close> block into \<open>null\<close>.\<close>

definition parseEmailContent ::
  "(string \<Rightarrow> exn + parsed_mail) \<Rightarrow> (string \<Rightarrow> 'd) \<Rightarrow> string \<Rightarrow> exn + 'd DispatchEvent option" where
  "parseEmailContent simpleParser newDate rawEmail =
     (case parse_try simpleParser newDate rawEmail of
        Inl error \<Rightarrow> Inr None
      | Inr result \<Rightarrow> Inr result)"








section \<open>Properties of the ledger\<close>

lemma update_mem: "(k, v) \<in> set (AList.update k v al)"
  by (induction al) auto

lemma update_length_present:
  "k \<in> fst ` set al \<Longrightarrow> length (AList.update k v al) = length al"
  by (induction al) auto

lemma update_key_count:
  "distinct (map fst al) \<Longrightarrow> length (filter (\<lambda>p. fst p = k) (AList.update k v al)) = 1"
proof (induction al)
  case Nil
  then show ?case by simp
next
  case (Cons p al)
  obtain k' v' where p: "p = (k', v')" by (cases p)
  show ?case
  proof (cases "k' = k")
    case True
    with Cons.prems p have "k \<notin> fst ` set al" by auto
    then have "filter (\<lambda>p. fst p = k) al = []"
      by (auto simp: filter_empty_conv)
    with True p show ?thesis by simp
  next
    case False
    with Cons p show ?thesis by simp
  qed
qed

lemma save_processed: "processed (snd (save f t)) = processed t"
  by (simp add: save_def Let_def)

lemma markAsProcessed_processed:
  "processed (snd (markAsProcessed h f now t mid subj frm content)) =
     AList.update mid \<lparr>messageId = mid, contentHash = h content, processedAt = now,
                       subject = subj, sender = frm\<rparr> (processed t)"
  by (simp add: markAsProcessed_def Let_def save_processed)

text \<open>
  C3. After \<open>markAsProcessed(messageId, subject, from, content)\<close>, whether or not the write
  to disk went through, \<open>isProcessed(messageId, c)\<close> is true for every content \<open>c\<close>, and
  \<open>isProcessed(otherId, content)\<close> is true for every message id \<open>otherId\<close>: the entry is
  found by its id, and a different id with the same content is found by the content hash.
\<close>

theorem markAsProcessed_then_isProcessed:
  "isProcessed h (snd (markAsProcessed h f now t mid subj frm content)) mid c \<and>
   isProcessed h (snd (markAsProcessed h f now t mid subj frm content)) otherId content"
proof -
  let ?e = "\<lparr>messageId = mid, contentHash = h content, processedAt = now,
              subject = subj, sender = frm\<rparr>"
  let ?t = "snd (markAsProcessed h f now t mid subj frm content)"
  have p: "processed ?t = AList.update mid ?e (processed t)"
    by (rule markAsProcessed_processed)
  have "map_of (processed ?t) mid = Some ?e"
    by (simp add: p update_conv')
  then have a: "isProcessed h ?t mid c"
    by (simp add: isProcessed_def)
  have "?e \<in> set (map snd (processed ?t))"
    using update_mem [of mid ?e "processed t"] by (force simp: p)
  then have "list_ex (\<lambda>entry. contentHash entry = h content) (map snd (processed ?t))"
    unfolding list_ex_iff by (intro bexI [of _ ?e]) simp_all
  then have b: "isProcessed h ?t otherId content"
    by (simp add: isProcessed_def)
  from a b show ?thesis by simp
qed

theorem markAsProcessed_then_isProcessed_witness:
  "isProcessed (\<lambda>s. rev s)
     (snd (markAsProcessed (\<lambda>s. rev s) \<lparr>read_ok = True, write_ok = True, rename_ok = True\<rparr> 1000
        (new_tracker \<lparr>ledger_file = Missing, temp_file = Missing\<rparr>)
        ''id-1'' ''subj'' ''cpowerdispatch@x'' ''body'')) ''id-1'' ''other body'' \<and>
   isProcessed (\<lambda>s. rev s)
     (snd (markAsProcessed (\<lambda>s. rev s) \<lparr>read_ok = True, write_ok = True, rename_ok = True\<rparr> 1000
        (new_tracker \<lparr>ledger_file = Missing, temp_file = Missing\<rparr>)
        ''id-1'' ''subj'' ''cpowerdispatch@x'' ''body'')) ''fwd-2'' ''body''"
  using markAsProcessed_then_isProcessed
    [of "\<lambda>s. rev s" "\<lparr>read_ok = True, write_ok = True, rename_ok = True\<rparr>" 1000
        "new_tracker \<lparr>ledger_file = Missing, temp_file = Missing\<rparr>"
        "''id-1''" "''subj''" "''cpowerdispatch@x''" "''body''" "''other body''" "''fwd-2''"]
  by simp

text \<open>
  C9. Calling \<open>markAsProcessed\<close> twice with the same message id, on a map with distinct
  keys (as every JavaScript \<open>Map\<close> is), leaves the ledger no longer than after the first
  call, with exactly one entry under that id: the entry of the second call, with the second
  content's hash. The second call replaces the entry, it does not add one.
\<close>

theorem markAsProcessed_twice_single_entry:
  assumes "distinct (map fst (processed t))"
  shows "let t1 = snd (markAsProcessed h f1 now1 t mid subj1 frm1 content1);
             t2 = snd (markAsProcessed h f2 now2 t1 mid subj2 frm2 content2)
         in length (processed t2) = length (processed t1) \<and>
            length (filter (\<lambda>p. fst p = mid) (processed t2)) = 1 \<and>
            map_of (processed t2) mid =
              Some \<lparr>messageId = mid, contentHash = h content2, processedAt = now2,
                    subject = subj2, sender = frm2\<rparr>"
proof -
  let ?e1 = "\<lparr>messageId = mid, contentHash = h content1, processedAt = now1,
               subject = subj1, sender = frm1\<rparr>"
  let ?e2 = "\<lparr>messageId = mid, contentHash = h content2, processedAt = now2,
               subject = subj2, sender = frm2\<rparr>"
  let ?al1 = "AList.update mid ?e1 (processed t)"
  have d1: "distinct (map fst ?al1)"
    using assms by (rule distinct_update)
  have "mid \<in> fst ` set ?al1"
    by (simp add: dom_update)
  then have len: "length (AList.update mid ?e2 ?al1) = length ?al1"
    by (rule update_length_present)
  have one: "length (filter (\<lambda>p. fst p = mid) (AList.update mid ?e2 ?al1)) = 1"
    using d1 by (rule update_key_count)
  have look: "map_of (AList.update mid ?e2 ?al1) mid = Some ?e2"
    by (simp add: update_conv')
  show ?thesis
    unfolding Let_def markAsProcessed_processed
    using len one look by simp
qed

theorem markAsProcessed_twice_single_entry_witness:
  "distinct (map fst (processed (new_tracker \<lparr>ledger_file = Missing, temp_file = Missing\<rparr>))) \<and>
   (let t1 = snd (markAsProcessed (\<lambda>s. rev s) \<lparr>read_ok = True, write_ok = True, rename_ok = True\<rparr> 10
                 (new_tracker \<lparr>ledger_file = Missing, temp_file = Missing\<rparr>) ''m'' ''s'' ''f'' ''ab'');
        t2 = snd (markAsProcessed (\<lambda>s. rev s) \<lparr>read_ok = True, write_ok = True, rename_ok = True\<rparr> 20
                 t1 ''m'' ''s'' ''f'' ''cd'')
    in length (processed t2) = length (processed t1) \<and>
       length (filter (\<lambda>p. fst p = ''m'') (processed t2)) = 1 \<and>
       map_of (processed t2) ''m'' =
         Some \<lparr>messageId = ''m'', contentHash = rev ''cd'', processedAt = 20,
               subject = ''s'', sender = ''f''\<rparr>)"
proof -
  have d: "distinct (map fst (processed (new_tracker \<lparr>ledger_file = Missing, temp_file = Missing\<rparr>)))"
    by (simp add: new_tracker_def)
  show ?thesis
    using d markAsProcessed_twice_single_entry [OF d, of "\<lambda>s. rev s"
      "\<lparr>read_ok = True, write_ok = True, rename_ok = True\<rparr>" 10 "''m''" "''s''" "''f''" "''ab''"
      "\<lparr>read_ok = True, write_ok = True, rename_ok = True\<rparr>" 20 "''s''" "''f''" "''cd''"]
    by simp
qed

subsection \<open>Pruning on load\<close>








section \<open>Properties of the scheduler\<close>

lemma digit_char_val:
  assumes "d < 10"
  shows "(of_char (digit_char d) :: nat) = 48 + d"
proof -
  from assms have "d = 0 \<or> d = 1 \<or> d = 2 \<or> d = 3 \<or> d = 4 \<or> d = 5 \<or> d = 6 \<or> d = 7 \<or>
      d = 8 \<or> d = 9"
    by arith
  then show ?thesis
    unfolding digit_char_def by (elim disjE) simp_all
qed

lemma digit_char_not_dash: "d < 10 \<Longrightarrow> digit_char d \<noteq> CHR ''-''"
proof
  assume d: "d < 10" and "digit_char d = CHR ''-''"
  then have "(of_char (digit_char d) :: nat) = of_char (CHR ''-'')" by simp
  with d show False by (simp add: digit_char_val)
qed

lemma show_nat_no_dash: "CHR ''-'' \<notin> set (show_nat n)"
proof (induction n rule: show_nat.induct)
  case (1 n)
  show ?case
  proof (cases "n < 10")
    case True
    then show ?thesis
      using digit_char_not_dash [of n] by (subst show_nat.simps) auto
  next
    case False
    have "n mod 10 < 10" by simp
    then have "digit_char (n mod 10) \<noteq> CHR ''-''" by (rule digit_char_not_dash)
    with False 1 show ?thesis
      by (subst show_nat.simps) auto
  qed
qed

lemma read_show_nat: "read_nat (show_nat n) = n"
proof (induction n rule: show_nat.induct)
  case (1 n)
  show ?case
  proof (cases "n < 10")
    case True
    then show ?thesis
      by (subst show_nat.simps) (simp add: read_nat_def digit_char_val)
  next
    case False
    have m: "n mod 10 < 10" by simp
    have "read_nat (show_nat n) = 10 * read_nat (show_nat (n div 10)) + n mod 10"
      using False by (subst show_nat.simps) (simp add: read_nat_def digit_char_val [OF m])
    also have "\<dots> = 10 * (n div 10) + n mod 10"
      using 1 False by simp
    finally show ?thesis by simp
  qed
qed

lemma show_nat_inj: "show_nat m = show_nat n \<Longrightarrow> m = n"
  by (metis read_show_nat)

lemma takeWhile_until_dash:
  "CHR ''-'' \<notin> set xs \<Longrightarrow> takeWhile (\<lambda>c. c \<noteq> CHR ''-'') (xs @ CHR ''-'' # r) = xs"
  by (induction xs) auto

lemma split_at_dash:
  assumes "CHR ''-'' \<notin> set xs" "CHR ''-'' \<notin> set ys"
    and "xs @ CHR ''-'' # r1 = ys @ CHR ''-'' # r2"
  shows "xs = ys"
proof -
  have "takeWhile (\<lambda>c. c \<noteq> CHR ''-'') (xs @ CHR ''-'' # r1) = xs"
    using assms(1) by (rule takeWhile_until_dash)
  moreover have "takeWhile (\<lambda>c. c \<noteq> CHR ''-'') (ys @ CHR ''-'' # r2) = ys"
    using assms(2) by (rule takeWhile_until_dash)
  ultimately show ?thesis using assms(3) by simp
qed

lemma make_job_id_inj:
  assumes "make_job_id kind c1 n1 = make_job_id kind c2 n2"
  shows "c1 = c2"
proof -
  from assms have "show_nat c1 @ CHR ''-'' # sanitize n1 = show_nat c2 @ CHR ''-'' # sanitize n2"
    by (simp add: make_job_id_def)
  then have "show_nat c1 = show_nat c2"
    by (rule split_at_dash [OF show_nat_no_dash show_nat_no_dash])
  then show ?thesis by (rule show_nat_inj)
qed

lemma update_fresh: "k \<notin> fst ` set al \<Longrightarrow> AList.update k v al = al @ [(k, v)]"
  by (induction al) auto

lemma make_job_id_kind: "make_job_id ''immediate'' c n \<noteq> make_job_id ''job'' c' n'"
  by (simp add: make_job_id_def)

lemma sched_inv_new: "sched_inv new_scheduler"
  by (simp add: sched_inv_def new_scheduler_def)

lemma sched_inv_fresh_job:
  assumes "sched_inv s" "jobCounter s < c"
  shows "make_job_id ''job'' c n \<notin> fst ` set (jobs s)"
proof
  assume "make_job_id ''job'' c n \<in> fst ` set (jobs s)"
  then obtain p where p: "p \<in> set (jobs s)" "fst p = make_job_id ''job'' c n" by auto
  with assms(1) obtain c' n' where c': "c' \<le> jobCounter s" "fst p = make_job_id ''job'' c' n'"
    unfolding sched_inv_def by blast
  with p(2) have "c = c'" using make_job_id_inj [of "''job''" c n c' n'] by simp
  with c'(1) assms(2) show False by simp
qed

lemma sched_inv_no_immediate:
  assumes "sched_inv s"
  shows "map_of (jobs s) (make_job_id ''immediate'' c n) = None"
proof -
  have "make_job_id ''immediate'' c n \<notin> fst ` set (jobs s)"
  proof
    assume "make_job_id ''immediate'' c n \<in> fst ` set (jobs s)"
    then obtain p where p: "p \<in> set (jobs s)" "fst p = make_job_id ''immediate'' c n" by auto
    with assms obtain c' n' where "fst p = make_job_id ''job'' c' n'"
      unfolding sched_inv_def by blast
    with p(2) show False using make_job_id_kind [of c n c' n'] by simp
  qed
  then show ?thesis by (simp add: map_of_eq_None_iff)
qed

lemma schedule_facility_jobs:
  assumes "sched_inv s"
  shows "\<exists>j. jobs (schedule_facility env ev t s fac) =
               jobs s @ [(make_job_id ''job'' (Suc (jobCounter s)) (facilityName fac), j)] \<and>
             status j = Pending \<and> task j \<noteq> None \<and> scheduledTime j = t \<and>
             job_id j = make_job_id ''job'' (Suc (jobCounter s)) (facilityName fac) \<and>
             job_facilityName j = facilityName fac"
    and "jobCounter (schedule_facility env ev t s fac) = Suc (jobCounter s)"
    and "emitted (schedule_facility env ev t s fac) =
           emitted s @ [JobScheduled (make_job_id ''job'' (Suc (jobCounter s)) (facilityName fac))
                          (facilityName fac) t]"
proof -
  let ?k = "make_job_id ''job'' (Suc (jobCounter s)) (facilityName fac)"
  have fresh: "?k \<notin> fst ` set (jobs s)"
    using assms by (rule sched_inv_fresh_job) simp
  show "\<exists>j. jobs (schedule_facility env ev t s fac) = jobs s @ [(?k, j)] \<and>
             status j = Pending \<and> task j \<noteq> None \<and> scheduledTime j = t \<and>
             job_id j = ?k \<and> job_facilityName j = facilityName fac"
    by (simp add: schedule_facility_def Let_def emit_def update_fresh [OF fresh])
  show "jobCounter (schedule_facility env ev t s fac) = Suc (jobCounter s)"
    by (simp add: schedule_facility_def Let_def emit_def)
  show "emitted (schedule_facility env ev t s fac) =
           emitted s @ [JobScheduled ?k (facilityName fac) t]"
    by (simp add: schedule_facility_def Let_def emit_def)
qed

lemma schedule_facility_inv:
  assumes "sched_inv s"
  shows "sched_inv (schedule_facility env ev t s fac)"
proof -
  let ?s1 = "schedule_facility env ev t s fac"
  let ?k = "make_job_id ''job'' (Suc (jobCounter s)) (facilityName fac)"
  from schedule_facility_jobs(1) [OF assms, of env ev t fac]
  obtain j where j: "jobs ?s1 = jobs s @ [(?k, j)]" "task j \<noteq> None" "job_id j = ?k"
    by blast
  have c: "jobCounter ?s1 = Suc (jobCounter s)"
    by (rule schedule_facility_jobs(2) [OF assms])
  show ?thesis
    unfolding sched_inv_def
  proof
    fix p assume "p \<in> set (jobs ?s1)"
    then consider "p \<in> set (jobs s)" | "p = (?k, j)"
      unfolding j(1) by auto
    then show "(\<exists>c n. c \<le> jobCounter ?s1 \<and> fst p = make_job_id ''job'' c n) \<and>
        task (snd p) \<noteq> None \<and> job_id (snd p) = fst p"
    proof cases
      case 1
      with assms obtain c' n' where "c' \<le> jobCounter s" "fst p = make_job_id ''job'' c' n'"
        and "task (snd p) \<noteq> None" "job_id (snd p) = fst p"
        unfolding sched_inv_def by blast
      then show ?thesis unfolding c by (metis le_SucI)
    next
      case 2
      have "Suc (jobCounter s) \<le> jobCounter ?s1" unfolding c by simp
      with 2 j(2,3) show ?thesis by auto
    qed
  qed
qed

lemma schedule_loop:
  assumes "sched_inv s"
  shows "sched_inv (foldl (schedule_facility env ev t) s fs) \<and>
         jobCounter (foldl (schedule_facility env ev t) s fs) = jobCounter s + length fs \<and>
         (\<exists>new. jobs (foldl (schedule_facility env ev t) s fs) = jobs s @ new \<and>
            map (job_facilityName \<circ> snd) new = map facilityName fs \<and>
            (\<forall>p \<in> set new. status (snd p) = Pending \<and> job_id (snd p) = fst p \<and>
                scheduledTime (snd p) = t \<and>
                (\<exists>c n. jobCounter s < c \<and> fst p = make_job_id ''job'' c n)) \<and>
            distinct (map fst new))"
  using assms
proof (induction fs arbitrary: s)
  case Nil
  then show ?case by simp
next
  case (Cons fac fs)
  let ?s1 = "schedule_facility env ev t s fac"
  let ?k = "make_job_id ''job'' (Suc (jobCounter s)) (facilityName fac)"
  have inv1: "sched_inv ?s1"
    using Cons.prems by (rule schedule_facility_inv)
  have c1: "jobCounter ?s1 = Suc (jobCounter s)"
    by (rule schedule_facility_jobs(2) [OF Cons.prems])
  from Cons.IH [OF inv1] obtain new where
    ib: "sched_inv (foldl (schedule_facility env ev t) ?s1 fs)"
    and jc: "jobCounter (foldl (schedule_facility env ev t) ?s1 fs) = jobCounter ?s1 + length fs"
    and jn: "jobs (foldl (schedule_facility env ev t) ?s1 fs) = jobs ?s1 @ new"
    and nm: "map (job_facilityName \<circ> snd) new = map facilityName fs"
    and al: "\<forall>p \<in> set new. status (snd p) = Pending \<and> job_id (snd p) = fst p \<and>
                scheduledTime (snd p) = t \<and>
                (\<exists>c n. jobCounter ?s1 < c \<and> fst p = make_job_id ''job'' c n)"
    and di: "distinct (map fst new)"
    by blast
  from schedule_facility_jobs(1) [OF Cons.prems, of env ev t fac]
  obtain j where j: "jobs ?s1 = jobs s @ [(?k, j)]" "status j = Pending"
      "job_id j = ?k" "scheduledTime j = t" "job_facilityName j = facilityName fac"
    by blast
  let ?new = "(?k, j) # new"
  have knew: "?k \<notin> fst ` set new"
  proof
    assume "?k \<in> fst ` set new"
    then obtain p where p: "p \<in> set new" "fst p = ?k" by auto
    with al obtain c n where cn: "jobCounter ?s1 < c" "fst p = make_job_id ''job'' c n" by blast
    from p(2) cn(2) have "Suc (jobCounter s) = c"
      using make_job_id_inj [of "''job''" "Suc (jobCounter s)" "facilityName fac" c n] by simp
    with cn(1) c1 show False by simp
  qed
  have 1: "jobs (foldl (schedule_facility env ev t) s (fac # fs)) = jobs s @ ?new"
    using jn j(1) by simp
  have 2: "map (job_facilityName \<circ> snd) ?new = map facilityName (fac # fs)"
    using nm j(5) by simp
  have 3: "\<forall>p \<in> set ?new. status (snd p) = Pending \<and> job_id (snd p) = fst p \<and>
                scheduledTime (snd p) = t \<and>
                (\<exists>c n. jobCounter s < c \<and> fst p = make_job_id ''job'' c n)"
  proof
    fix p assume "p \<in> set ?new"
    then consider "p = (?k, j)" | "p \<in> set new" by auto
    then show "status (snd p) = Pending \<and> job_id (snd p) = fst p \<and>
                scheduledTime (snd p) = t \<and>
                (\<exists>c n. jobCounter s < c \<and> fst p = make_job_id ''job'' c n)"
    proof cases
      case 1
      have "jobCounter s < Suc (jobCounter s)" by simp
      with 1 j show ?thesis by auto
    next
      case 2
      with al obtain c n where "jobCounter ?s1 < c" "fst p = make_job_id ''job'' c n" by blast
      then have "jobCounter s < c \<and> fst p = make_job_id ''job'' c n" using c1 by simp
      with 2 al show ?thesis by blast
    qed
  qed
  have 4: "distinct (map fst ?new)"
    using di knew by simp
  have 5: "jobCounter (foldl (schedule_facility env ev t) s (fac # fs)) = jobCounter s + length (fac # fs)"
    using jc c1 by simp
  have 6: "sched_inv (foldl (schedule_facility env ev t) s (fac # fs))"
    using ib by simp
  from 1 2 3 4 5 6 show ?case by blast
qed



lemma sample_ids:
  "map job_id (getActiveJobs
     (scheduleDispatchNotifications quiet_env 0 (sample_event 120000) new_scheduler)) =
   [''job-1-Facility-A'', ''job-2-Facility-B'']"
  by (simp add: scheduleDispatchNotifications_def sample_event_def minutes_def new_scheduler_def
      schedule_facility_def Let_def emit_def make_job_id_def show_nat.simps digit_char_def
      sanitize_def is_alnum_def facility_a_def facility_b_def getActiveJobs_def js_or_def)

lemma set_status_absent: "map_of (jobs s) jobId = None \<Longrightarrow> set_status jobId st s = s"
  by (simp add: set_status_def)


lemma emit_fields:
  "jobs (emit e s) = jobs s" "jobCounter (emit e s) = jobCounter s"
  "emitted (emit e s) = emitted s @ [e]"
  by (simp_all add: emit_def)

lemma send_loop_fields:
  "jobs (foldl (send_one env jobId name ev path) s contacts) = jobs s \<and>
   jobCounter (foldl (send_one env jobId name ev path) s contacts) = jobCounter s \<and>
   (\<exists>evs. emitted (foldl (send_one env jobId name ev path) s contacts) = emitted s @ evs)"
proof (induction contacts arbitrary: s)
  case Nil
  then show ?case by simp
next
  case (Cons c contacts)
  let ?s1 = "send_one env jobId name ev path s c"
  have 1: "jobs ?s1 = jobs s" "jobCounter ?s1 = jobCounter s" "\<exists>evs. emitted ?s1 = emitted s @ evs"
    by (simp_all add: send_one_def Let_def emit_fields split: option.splits)
  from Cons.IH [of ?s1] 1 show ?case by auto
qed

lemma deliver_fields:
  "jobs (if length contacts = 0 then emit (NoContactsFound jobId name) s
         else foldl (send_one env jobId name ev path) s contacts) = jobs s \<and>
   jobCounter (if length contacts = 0 then emit (NoContactsFound jobId name) s
         else foldl (send_one env jobId name ev path) s contacts) = jobCounter s \<and>
   (\<exists>evs. emitted (if length contacts = 0 then emit (NoContactsFound jobId name) s
         else foldl (send_one env jobId name ev path) s contacts) = emitted s @ evs)"
proof (cases "length contacts = 0")
  case True
  then show ?thesis by (simp add: emit_fields)
next
  case False
  then show ?thesis
    using send_loop_fields [of env jobId name ev path s contacts] by simp
qed

lemma processFacility_start_absent:
  assumes "map_of (jobs s) jobId = None"
  shows "processFacility_start jobId name s = emit (JobStarted jobId name) s"
  using assms by (simp add: processFacility_start_def set_status_absent)


lemma sched_inv_mono:
  assumes "sched_inv s" "jobs s' = jobs s" "jobCounter s \<le> jobCounter s'"
  shows "sched_inv s'"
  unfolding sched_inv_def
proof
  fix p assume "p \<in> set (jobs s')"
  then have "p \<in> set (jobs s)" using assms(2) by simp
  with assms(1) obtain c n where "c \<le> jobCounter s" "fst p = make_job_id ''job'' c n"
    and r: "task (snd p) \<noteq> None" "job_id (snd p) = fst p"
    unfolding sched_inv_def by blast
  then have "c \<le> jobCounter s' \<and> fst p = make_job_id ''job'' c n"
    using assms(3) by simp
  with r show "(\<exists>c n. c \<le> jobCounter s' \<and> fst p = make_job_id ''job'' c n) \<and>
        task (snd p) \<noteq> None \<and> job_id (snd p) = fst p"
    by blast
qed



lemma immediate_start_fields:
  assumes "sched_inv s"
  shows "jobs (immediate_start s fac) = jobs s"
    and "jobCounter (immediate_start s fac) = Suc (jobCounter s)"
    and "emitted (immediate_start s fac) =
           emitted s @ [JobStarted (make_job_id ''immediate'' (Suc (jobCounter s)) (facilityName fac))
                          (facilityName fac)]"
proof -
  let ?s0 = "s\<lparr>jobCounter := Suc (jobCounter s)\<rparr>"
  let ?k = "make_job_id ''immediate'' (Suc (jobCounter s)) (facilityName fac)"
  have "map_of (jobs ?s0) ?k = None"
    using sched_inv_no_immediate [OF assms] by simp
  then have st: "processFacility_start ?k (facilityName fac) ?s0 =
                   emit (JobStarted ?k (facilityName fac)) ?s0"
    by (rule processFacility_start_absent)
  show "jobs (immediate_start s fac) = jobs s"
    by (simp add: immediate_start_def Let_def st emit_fields)
  show "jobCounter (immediate_start s fac) = Suc (jobCounter s)"
    by (simp add: immediate_start_def Let_def st emit_fields)
  show "emitted (immediate_start s fac) = emitted s @ [JobStarted ?k (facilityName fac)]"
    by (simp add: immediate_start_def Let_def st emit_fields)
qed

lemma immediate_start_loop:
  assumes "sched_inv s"
  shows "jobs (foldl immediate_start s fs) = jobs s \<and>
         jobCounter (foldl immediate_start s fs) = jobCounter s + length fs \<and>
         emitted (foldl immediate_start s fs) =
           emitted s @ map (\<lambda>p. JobStarted (fst p) (snd p)) (immediate_ids (jobCounter s) fs)"
  using assms
proof (induction fs arbitrary: s)
  case Nil
  then show ?case by simp
next
  case (Cons fac fs)
  let ?s1 = "immediate_start s fac"
  note f = immediate_start_fields [OF Cons.prems, of fac]
  have "sched_inv ?s1"
    using Cons.prems f(1) by (rule sched_inv_mono) (simp add: f(2))
  from Cons.IH [OF this] show ?case
    by (simp add: f)
qed





lemma past_event_one_failure_trace:
  "emitted (scheduleDispatchNotifications_settled failing_env 4200000 (sample_event 0) new_scheduler) =
     [JobStarted ''immediate-1-Facility-A'' ''Facility A'',
      JobStarted ''immediate-2-Facility-B'' ''Facility B'',
      JobFailed ''immediate-1-Facility-A'' ''Facility A'' (Error ''directory''),
      JobCompleted ''immediate-2-Facility-B'' ''Facility B'']"
  by (simp add: scheduleDispatchNotifications_settled_def
      processAllFacilities_def processAllFacilities_start_def immediate_start_def
      immediate_rest_def processFacility_start_def processFacility_rest_def set_status_def
      resolve_contacts_def capture_screenshot_def failing_env_def send_one_def contact_b_def
      sample_event_def minutes_def new_scheduler_def
      Let_def emit_def make_job_id_def show_nat.simps digit_char_def
      sanitize_def is_alnum_def facility_a_def facility_b_def)

subsection \<open>The invariant is kept\<close>

lemma update_set_subset: "set (AList.update k v al) \<subseteq> insert (k, v) (set al)"
  by (induction al) auto

lemma set_status_inv:
  assumes "sched_inv s"
  shows "sched_inv (set_status jobId st s)"
proof (cases "map_of (jobs s) jobId")
  case None
  then show ?thesis using assms by (simp add: set_status_absent)
next
  case (Some job)
  then have mem: "(jobId, job) \<in> set (jobs s)" by (rule map_of_SomeD)
  have js: "jobs (set_status jobId st s) = AList.update jobId (job\<lparr>status := st\<rparr>) (jobs s)"
    and cs: "jobCounter (set_status jobId st s) = jobCounter s"
    using Some by (simp_all add: set_status_def)
  show ?thesis
    unfolding sched_inv_def
  proof
    fix p assume "p \<in> set (jobs (set_status jobId st s))"
    then consider "p = (jobId, job\<lparr>status := st\<rparr>)" | "p \<in> set (jobs s)"
      unfolding js using update_set_subset [of jobId "job\<lparr>status := st\<rparr>" "jobs s"] by auto
    then show "(\<exists>c n. c \<le> jobCounter (set_status jobId st s) \<and> fst p = make_job_id ''job'' c n) \<and>
        task (snd p) \<noteq> None \<and> job_id (snd p) = fst p"
    proof cases
      case 1
      from assms mem have "(\<exists>c n. c \<le> jobCounter s \<and> jobId = make_job_id ''job'' c n) \<and>
          task job \<noteq> None \<and> job_id job = jobId"
        unfolding sched_inv_def by force
      with 1 show ?thesis unfolding cs by simp
    next
      case 2
      with assms show ?thesis unfolding sched_inv_def cs by blast
    qed
  qed
qed

lemma processFacility_inv:
  assumes "sched_inv s"
  shows "sched_inv (processFacility env jobId name ev s)"
proof -
  let ?s0 = "processFacility_start jobId name s"
  have i0: "sched_inv ?s0"
    unfolding processFacility_start_def
    by (rule sched_inv_mono [OF set_status_inv [OF assms, of jobId Running]])
      (simp_all add: emit_fields)
  show ?thesis
  proof (cases "resolve_contacts env name")
    case (Inl e)
    have "sched_inv (emit (JobFailed jobId name e) (set_status jobId Failed ?s0))"
      by (rule sched_inv_mono [OF set_status_inv [OF i0, of jobId Failed]])
        (simp_all add: emit_fields)
    then show ?thesis using Inl by (simp add: processFacility_def processFacility_rest_def)
  next
    case (Inr contacts)
    let ?path = "capture_screenshot env jobId name contacts ev"
    let ?s1 = "if length contacts = 0 then emit (NoContactsFound jobId name) ?s0
               else foldl (send_one env jobId name ev ?path) ?s0 contacts"
    have "jobs ?s1 = jobs ?s0" "jobCounter ?s0 \<le> jobCounter ?s1"
      using deliver_fields [of contacts jobId name ?s0 env ev ?path] by simp_all
    with i0 have i1: "sched_inv ?s1" by (rule sched_inv_mono)
    have "sched_inv (emit (JobCompleted jobId name) (set_status jobId Completed ?s1))"
      by (rule sched_inv_mono [OF set_status_inv [OF i1, of jobId Completed]])
        (simp_all add: emit_fields)
    then show ?thesis
      using Inr by (simp add: processFacility_def processFacility_rest_def Let_def)
  qed
qed

lemma scheduleDispatchNotifications_inv:
  assumes "sched_inv s"
  shows "sched_inv (scheduleDispatchNotifications env now ev s)"
proof (cases "startTime ev + minutes 10 \<le> now")
  case True
  have eq: "scheduleDispatchNotifications env now ev s = foldl immediate_start s (facilities ev)"
    using True
    by (simp add: scheduleDispatchNotifications_def processAllFacilities_start_def Let_def)
  note st = immediate_start_loop [OF assms, of "facilities ev"]
  show ?thesis
    unfolding eq using assms by (rule sched_inv_mono) (simp_all add: st)
next
  case False
  then show ?thesis
    using schedule_loop [OF assms, of env ev "startTime ev + minutes 10" "facilities ev"]
    by (simp add: scheduleDispatchNotifications_def Let_def)
qed

lemma cron_fire_inv:
  assumes "sched_inv s"
  shows "sched_inv (cron_fire env jobId s)"
  using assms processFacility_inv [OF assms]
  by (simp add: cron_fire_def split: option.splits)

lemma cancelJob_cases:
  "cancelJob jobId s = (False, s) \<or>
   (\<exists>job tsk. map_of (jobs s) jobId = Some job \<and> task job = Some tsk \<and> status job = Pending \<and>
      cancelJob jobId s =
        (True, emit (JobCancelled jobId (job_facilityName job))
                 (s\<lparr>jobs := AList.update jobId
                      (job\<lparr>task := Some (tsk\<lparr>cron_stopped := True\<rparr>), status := Failed\<rparr>)
                      (jobs s)\<rparr>)))"
proof (cases "map_of (jobs s) jobId")
  case None
  then show ?thesis by (simp add: cancelJob_def)
next
  case (Some job)
  show ?thesis
  proof (cases "task job")
    case None
    with Some show ?thesis by (simp add: cancelJob_def)
  next
    case (Some tsk)
    with \<open>map_of (jobs s) jobId = Some job\<close> show ?thesis
      by (cases "status job = Pending") (simp_all add: cancelJob_def)
  qed
qed

lemma cancelJob_inv:
  assumes "sched_inv s"
  shows "sched_inv (snd (cancelJob jobId s))"
proof -
  from cancelJob_cases [of jobId s] consider
    "cancelJob jobId s = (False, s)"
    | job tsk where "map_of (jobs s) jobId = Some job" "task job = Some tsk"
        "cancelJob jobId s =
          (True, emit (JobCancelled jobId (job_facilityName job))
                   (s\<lparr>jobs := AList.update jobId
                        (job\<lparr>task := Some (tsk\<lparr>cron_stopped := True\<rparr>), status := Failed\<rparr>)
                        (jobs s)\<rparr>))"
    by blast
  then show ?thesis
  proof cases
    case 1
    with assms show ?thesis by simp
  next
    case (2 job tsk)
    let ?j = "job\<lparr>task := Some (tsk\<lparr>cron_stopped := True\<rparr>), status := Failed\<rparr>"
    have mem: "(jobId, job) \<in> set (jobs s)" using 2(1) by (rule map_of_SomeD)
    have js: "jobs (snd (cancelJob jobId s)) = AList.update jobId ?j (jobs s)"
      and cs: "jobCounter (snd (cancelJob jobId s)) = jobCounter s"
      unfolding 2(3) by (simp_all add: emit_fields)
    show ?thesis
      unfolding sched_inv_def
    proof
      fix p assume "p \<in> set (jobs (snd (cancelJob jobId s)))"
      then consider "p = (jobId, ?j)" | "p \<in> set (jobs s)"
        unfolding js using update_set_subset [of jobId ?j "jobs s"] by auto
      then show "(\<exists>c n. c \<le> jobCounter (snd (cancelJob jobId s)) \<and>
                    fst p = make_job_id ''job'' c n) \<and>
          task (snd p) \<noteq> None \<and> job_id (snd p) = fst p"
      proof cases
        case 1
        from assms mem have "(\<exists>c n. c \<le> jobCounter s \<and> jobId = make_job_id ''job'' c n) \<and>
            job_id job = jobId"
          unfolding sched_inv_def by force
        with 1 show ?thesis unfolding cs by simp
      next
        case 2
        with assms show ?thesis unfolding sched_inv_def cs by blast
      qed
    qed
  qed
qed

text \<open>
  C6. In a state the scheduler can reach, \<open>cancelJob\<close> on a job that is \<open>pending\<close>
  returns true, leaves the job \<open>failed\<close> with its cron task stopped, so that the timer
  coming due afterwards changes nothing, and a second \<open>cancelJob\<close> on the same id returns
  false and leaves the state as it is. On an id that is unknown or whose job is not
  \<open>pending\<close>, \<open>cancelJob\<close> returns false and leaves the state as it is.
\<close>

theorem cancelJob_pending_then_noop:
  "(sched_inv s \<and> getJobStatus s jobId = Some job \<and> status job = Pending \<longrightarrow>
      fst (cancelJob jobId s) = True \<and>
      map_option status (getJobStatus (snd (cancelJob jobId s)) jobId) = Some Failed \<and>
      map_option (map_option cron_stopped \<circ> task) (getJobStatus (snd (cancelJob jobId s)) jobId) =
        Some (Some True) \<and>
      cron_fire env jobId (snd (cancelJob jobId s)) = snd (cancelJob jobId s) \<and>
      cancelJob jobId (snd (cancelJob jobId s)) = (False, snd (cancelJob jobId s))) \<and>
   ((\<forall>j. getJobStatus s jobId = Some j \<longrightarrow> status j \<noteq> Pending) \<longrightarrow>
      cancelJob jobId s = (False, s))"
proof (intro conjI impI)
  assume a: "sched_inv s \<and> getJobStatus s jobId = Some job \<and> status job = Pending"
  then have look: "map_of (jobs s) jobId = Some job" and pend: "status job = Pending"
    by (simp_all add: getJobStatus_def)
  from look have "(jobId, job) \<in> set (jobs s)" by (rule map_of_SomeD)
  with a obtain tsk where tsk: "task job = Some tsk"
    unfolding sched_inv_def by force
  let ?j = "job\<lparr>task := Some (tsk\<lparr>cron_stopped := True\<rparr>), status := Failed\<rparr>"
  let ?s' = "snd (cancelJob jobId s)"
  have c: "cancelJob jobId s =
             (True, emit (JobCancelled jobId (job_facilityName job))
                      (s\<lparr>jobs := AList.update jobId ?j (jobs s)\<rparr>))"
    using look pend tsk by (simp add: cancelJob_def)
  have look': "map_of (jobs ?s') jobId = Some ?j"
    unfolding c by (simp add: emit_fields update_conv')
  show "fst (cancelJob jobId s) = True"
    unfolding c by simp
  show "map_option status (getJobStatus ?s' jobId) = Some Failed"
    using look' by (simp add: getJobStatus_def)
  show "map_option (map_option cron_stopped \<circ> task) (getJobStatus ?s' jobId) = Some (Some True)"
    using look' by (simp add: getJobStatus_def)
  show "cron_fire env jobId ?s' = ?s'"
    using look' by (simp add: cron_fire_def)
  show "cancelJob jobId ?s' = (False, ?s')"
    using look' by (simp add: cancelJob_def)
next
  assume "\<forall>j. getJobStatus s jobId = Some j \<longrightarrow> status j \<noteq> Pending"
  then show "cancelJob jobId s = (False, s)"
    by (simp add: cancelJob_def getJobStatus_def split: option.splits)
qed

lemma sample_pending_job:
  "map_option status
     (getJobStatus (scheduleDispatchNotifications quiet_env 0 (sample_event 120000) new_scheduler)
        ''job-1-Facility-A'') = Some Pending"
  by (simp add: scheduleDispatchNotifications_def sample_event_def minutes_def new_scheduler_def
      schedule_facility_def Let_def emit_def make_job_id_def show_nat.simps digit_char_def
      sanitize_def is_alnum_def facility_a_def facility_b_def getJobStatus_def js_or_def)

theorem cancelJob_pending_then_noop_witness:
  "sched_inv (scheduleDispatchNotifications quiet_env 0 (sample_event 120000) new_scheduler) \<and>
   map_option status
     (getJobStatus (scheduleDispatchNotifications quiet_env 0 (sample_event 120000) new_scheduler)
        ''job-1-Facility-A'') = Some Pending \<and>
   getJobStatus new_scheduler ''job-1-Facility-A'' = None \<and>
   fst (cancelJob ''job-1-Facility-A''
         (scheduleDispatchNotifications quiet_env 0 (sample_event 120000) new_scheduler)) = True \<and>
   cron_fire quiet_env ''job-1-Facility-A''
     (snd (cancelJob ''job-1-Facility-A''
         (scheduleDispatchNotifications quiet_env 0 (sample_event 120000) new_scheduler))) =
     snd (cancelJob ''job-1-Facility-A''
         (scheduleDispatchNotifications quiet_env 0 (sample_event 120000) new_scheduler)) \<and>
   cancelJob ''job-1-Facility-A''
     (snd (cancelJob ''job-1-Facility-A''
         (scheduleDispatchNotifications quiet_env 0 (sample_event 120000) new_scheduler))) =
     (False, snd (cancelJob ''job-1-Facility-A''
         (scheduleDispatchNotifications quiet_env 0 (sample_event 120000) new_scheduler))) \<and>
   cancelJob ''job-1-Facility-A'' new_scheduler = (False, new_scheduler)"
proof -
  let ?s = "scheduleDispatchNotifications quiet_env 0 (sample_event 120000) new_scheduler"
  have inv: "sched_inv ?s"
    using sched_inv_new by (rule scheduleDispatchNotifications_inv)
  obtain job where job: "getJobStatus ?s ''job-1-Facility-A'' = Some job" "status job = Pending"
    using sample_pending_job by (auto simp: map_option_case split: option.splits)
  have none: "\<forall>j. getJobStatus new_scheduler ''job-1-Facility-A'' = Some j \<longrightarrow> status j \<noteq> Pending"
    by (simp add: getJobStatus_def new_scheduler_def)
  from cancelJob_pending_then_noop [of ?s "''job-1-Facility-A''" job quiet_env] inv job
  have 1: "fst (cancelJob ''job-1-Facility-A'' ?s) = True \<and>
      cron_fire quiet_env ''job-1-Facility-A'' (snd (cancelJob ''job-1-Facility-A'' ?s)) =
        snd (cancelJob ''job-1-Facility-A'' ?s) \<and>
      cancelJob ''job-1-Facility-A'' (snd (cancelJob ''job-1-Facility-A'' ?s)) =
        (False, snd (cancelJob ''job-1-Facility-A'' ?s))"
    by blast
  from cancelJob_pending_then_noop [of new_scheduler "''job-1-Facility-A''" job quiet_env] none
  have 2: "cancelJob ''job-1-Facility-A'' new_scheduler = (False, new_scheduler)"
    by blast
  have 3: "getJobStatus new_scheduler ''job-1-Facility-A'' = None"
    by (simp add: getJobStatus_def new_scheduler_def)
  from inv sample_pending_job 3 1 2 show ?thesis by blast
qed

section \<open>Properties of the screenshot service\<close>







subsection \<open>The data-readiness check\<close>

lemmas usage_eval =
  hasUsageData_def text_page_def usagePatterns_def usage_pattern_found_def usage_reading_re_def
  re_test_def number_re_def digit_re_def Opt_def Plus_def is_digit_def is_space_def
  chartSelectors_def

lemma ms_Seq_nonempty: "ms (Seq a b) st \<noteq> [] \<longleftrightarrow> (\<exists>st' \<in> set (ms a st). ms b st' \<noteq> [])"
  by (auto simp: concat_eq_Nil_conv)

lemma re_exec_mono:
  assumes "\<And>st. ms r st \<noteq> [] \<Longrightarrow> ms r' st \<noteq> []"
  shows "re_exec r s \<noteq> None \<Longrightarrow> re_exec r' s \<noteq> None"
proof (induction s)
  case Nil
  then have "ms r ([], []) \<noteq> []" by (auto split: list.splits)
  then have "ms r' ([], []) \<noteq> []" by (rule assms)
  then show ?case by (auto split: list.splits)
next
  case (Cons c cs)
  show ?case
  proof (cases "ms r' ([], c # cs)")
    case Nil
    then have "ms r ([], c # cs) = []" using assms by blast
    with Cons have "re_exec r' cs \<noteq> None" by simp
    with Nil show ?thesis by simp
  next
    case (Cons st sts)
    then show ?thesis by simp
  qed
qed

lemma reading_matches_kW:
  assumes "re_test usage_reading_re t"
  shows "re_test (seqs [number_re, Star (Sym CSpace), lits ''kW'']) t"
proof -
  have "\<And>st. ms usage_reading_re st \<noteq> [] \<Longrightarrow>
          ms (seqs [number_re, Star (Sym CSpace), lits ''kW'']) st \<noteq> []"
  proof -
    fix st assume "ms usage_reading_re st \<noteq> []"
    then obtain st1 st2 st3 where "st1 \<in> set (ms number_re st)"
      "st2 \<in> set (ms (Star (Sym CSpace)) st1)" "st3 \<in> set (ms (lits ''kW'') st2)"
      unfolding usage_reading_re_def seqs.simps ms_Seq_nonempty
      by (metis ms_Seq_nonempty in_set_conv_decomp list.distinct(1) concat.simps(1) map_is_Nil_conv ms.simps(3))
    then show "ms (seqs [number_re, Star (Sym CSpace), lits ''kW'']) st \<noteq> []"
      unfolding seqs.simps ms_Seq_nonempty by (metis empty_iff empty_set)
  qed
  then show ?thesis using assms unfolding re_test_def by (rule re_exec_mono)
qed

text \<open>What holds of the check: on a page without chart elements whose only text is a
  reading with its clock time, the reading is accepted when it contains neither \<open>0.00\<close>
  nor \<open>0 kW\<close>; the reading \<open>0.00 kWh\<close> and a bare \<open>kWh\<close> are rejected.\<close>

lemma hasUsageData_accepts_reading:
  assumes "re_test usage_reading_re t" "\<not> str_includes t ''0.00''" "\<not> str_includes t ''0 kW''"
  shows "hasUsageData (Some (text_page t))"
proof -
  let ?kw = "seqs [number_re, Star (Sym CSpace), lits ''kW'']"
  have m: "re_test ?kw t" using assms(1) by (rule reading_matches_kW)
  have ne: "t \<noteq> []"
  proof
    assume "t = []"
    with m show False by (simp add: usage_eval)
  qed
  have nk: "t \<noteq> ''kWh''"
  proof
    assume "t = ''kWh''"
    with m show False by (simp add: usage_eval)
  qed
  have "usage_pattern_found (text_page t) ?kw"
    using m ne nk assms(2,3) by (simp add: usage_pattern_found_def text_page_def)
  then show ?thesis
    by (simp add: hasUsageData_def text_page_def usagePatterns_def)
qed

lemma hasUsageData_accepts_example: "hasUsageData (Some (text_page ''5,606kW @ 1:00 PM''))"
  by (simp add: usage_eval)

lemma hasUsageData_chart:
  "\<not> page_closed p \<Longrightarrow> ''canvas'' \<in> set (selectors_present p) \<Longrightarrow> hasUsageData (Some p)"
  by (simp add: hasUsageData_def chartSelectors_def)

lemma hasUsageData_rejects_zero:
  "hasUsageData (Some (text_page ''0.00 kWh'')) = False"
  "hasUsageData (Some (text_page ''kWh'')) = False"
  by (simp_all add: usage_eval)

text \<open>
  C2. The claim asks that every reading of the form number, \<open>kW\<close>, \<open>@\<close>, clock time
  with AM or PM be accepted. The check tests the first matching text for the substrings
  \<open>0.00\<close> and \<open>0 kW\<close>, where the wait loop of \<open>captureUsage\<close> compares the whole
  text with \<open>0.00 kWh\<close> and \<open>0 kWh\<close>. So on a page that shows only the reading
  \<open>1,500 kW @ 2:00 PM\<close>, or only \<open>10.00kW @ 1:00 PM\<close>, both of which match the
  pattern, \<open>hasUsageData\<close> returns false.
\<close>

theorem hasUsageData_rejects_genuine_reading:
  "re_test usage_reading_re ''1,500 kW @ 2:00 PM'' \<and>
   hasUsageData (Some (text_page ''1,500 kW @ 2:00 PM'')) = False \<and>
   re_test usage_reading_re ''10.00kW @ 1:00 PM'' \<and>
   hasUsageData (Some (text_page ''10.00kW @ 1:00 PM'')) = False"
  by (simp add: usage_eval)

section \<open>Properties of the parser\<close>














text \<open>
  C10. \<open>parseEmailContent\<close> never rejects: for every raw text, whatever the MIME library
  does with it (it may throw) and whatever the \<open>Date\<close> constructor makes of the time text,
  the promise resolves, with an event or with \<open>null\<close>. The functions it calls are total:
  every regular-expression match of the model terminates.
\<close>

theorem parseEmailContent_never_throws:
  "\<exists>result. parseEmailContent simpleParser newDate rawEmail = Inr result"
  by (cases "parse_try simpleParser newDate rawEmail") (simp_all add: parseEmailContent_def)

theorem parseEmailContent_never_throws_witness:
  "(\<exists>result. parseEmailContent (\<lambda>raw. Inl (Error ''bad MIME'')) (\<lambda>s. s) ''not an email'' = Inr result) \<and>
   parseEmailContent (\<lambda>raw. Inl (Error ''bad MIME'')) (\<lambda>s. s :: string) ''not an email'' = Inr None"
  using parseEmailContent_never_throws [of "\<lambda>raw. Inl (Error ''bad MIME'')" "\<lambda>s. s" "''not an email''"]
  by (simp add: parseEmailContent_def parse_try_def)

end
